theory Spec2Isabelle
  imports Main
begin

section \<open>Strings and numbers of the runtime\<close>

text \<open>
  A source string is a sequence of UTF-16 code units. It is modelled as a \<open>string\<close>,
  one \<open>char\<close> per code unit, which covers the code units U+0000 to U+00FF. The
  built-in string operations below are written for that range.
\<close>

definition dquote :: char where
  "dquote = CHR 0x22"

definition tab :: char where
  "tab = CHR 0x09"

definition comma :: char where
  "comma = CHR '',''"

definition newline :: char where
  "newline = CHR 0x0A"

text \<open>
  The white space removed by \<open>String.prototype.trim\<close> and skipped by \<open>parseInt\<close>:
  TAB, LF, VT, FF, CR, SP and NBSP (the white space and line terminator code units
  below U+0100).
\<close>

definition is_ws :: "char \<Rightarrow> bool" where
  "is_ws c = (c = CHR 0x09 \<or> c = CHR 0x0A \<or> c = CHR 0x0B \<or> c = CHR 0x0C
     \<or> c = CHR 0x0D \<or> c = CHR 0x20 \<or> c = CHR 0xA0)"

definition trim :: "string \<Rightarrow> string" where
  "trim s = rev (dropWhile is_ws (rev (dropWhile is_ws s)))"

text \<open>\<open>String.prototype.toLowerCase\<close>: A to Z and the upper-case letters of Latin-1.\<close>

definition lower_char :: "char \<Rightarrow> char" where
  "lower_char c =
     (let n = (of_char c :: nat)
      in if (65 \<le> n \<and> n \<le> 90) \<or> (192 \<le> n \<and> n \<le> 222 \<and> n \<noteq> 215)
         then char_of (n + 32) else c)"

definition toLowerCase :: "string \<Rightarrow> string" where
  "toLowerCase s = map lower_char s"

text \<open>\<open>s.split(c)\<close> for a separator of one code unit: never empty, \<open>['']\<close> on \<open>''\<close>.\<close>

fun split_acc :: "char \<Rightarrow> string \<Rightarrow> string \<Rightarrow> string list" where
  "split_acc c cur [] = [cur]"
| "split_acc c cur (x # xs) =
     (if x = c then cur # split_acc c [] xs else split_acc c (cur @ [x]) xs)"

definition split :: "char \<Rightarrow> string \<Rightarrow> string list" where
  "split c s = split_acc c [] s"

text \<open>\<open>h.replace(/^"|"$/g, '')\<close>: one quote off the front, then one off the end.\<close>

definition strip_quotes :: "string \<Rightarrow> string" where
  "strip_quotes h =
     (let h1 = (case h of [] \<Rightarrow> [] | c # cs \<Rightarrow> if c = dquote then cs else c # cs)
      in if h1 \<noteq> [] \<and> last h1 = dquote then butlast h1 else h1)"

text \<open>
  \<open>xs[i]\<close> on an array: \<open>undefined\<close> (here \<open>None\<close>) out of range, and
  \<open>v ?? d\<close>, which replaces \<open>undefined\<close> by the default.
\<close>

definition at :: "'a list \<Rightarrow> nat \<Rightarrow> 'a option" where
  "at xs i = (if i < length xs then Some (xs ! i) else None)"

definition nullish :: "'a option \<Rightarrow> 'a \<Rightarrow> 'a" where
  "nullish v d = (case v of None \<Rightarrow> d | Some x \<Rightarrow> x)"

text \<open>
  \<open>xs.findIndex(h => h === name)\<close>: the first position of \<open>name\<close>, or \<open>-1\<close>.
\<close>

fun findIndex_from :: "int \<Rightarrow> string \<Rightarrow> string list \<Rightarrow> int" where
  "findIndex_from i name [] = -1"
| "findIndex_from i name (h # hs) =
     (if h = name then i else findIndex_from (i + 1) name hs)"

definition findIndex :: "string \<Rightarrow> string list \<Rightarrow> int" where
  "findIndex name hs = findIndex_from 0 name hs"

text \<open>
  A number of the runtime is a double. The doubles met here are \<open>NaN\<close>, the two
  infinities, and doubles of integer value: \<open>Num n\<close> is the double whose value is the
  integer \<open>n\<close>. Every integer of magnitude up to \<open>2 ^ 53\<close> is such a value; a
  larger one is only when it fits 53 significant bits.
\<close>

datatype number = NaN | Num int | PosInfinity | NegInfinity

text \<open>
  The double made of an integer: the integer itself when 53 bits hold it, otherwise the
  nearest value of 53 significant bits, a tie going to the even one, and an infinity
  when that value reaches \<open>2 ^ 1024\<close>.
\<close>

function floor_log2 :: "int \<Rightarrow> nat" where
  "floor_log2 n = (if n < 2 then 0 else Suc (floor_log2 (n div 2)))"
  by pat_completeness auto
termination
  by (relation "measure nat") auto

declare floor_log2.simps [simp del]

definition nearest_double :: "int \<Rightarrow> int" where
  "nearest_double m =
     (if m < 2 ^ 53 then m
      else (let e = floor_log2 m - 52; q = m div 2 ^ e; r = m mod 2 ^ e; half = 2 ^ (e - 1)
            in (if half < r \<or> (r = half \<and> odd q) then q + 1 else q) * 2 ^ e))"

definition to_number :: "int \<Rightarrow> number" where
  "to_number n =
     (let m = nearest_double \<bar>n\<bar>
      in if 2 ^ 1024 \<le> m then (if n < 0 then NegInfinity else PosInfinity)
         else Num (if n < 0 then - m else m))"

text \<open>
  \<open>parseInt(s, 10)\<close>: leading white space is skipped, one sign is read, then the
  longest run of decimal digits; \<open>NaN\<close> when that run is empty, else the double made
  of the signed value of all the digits. (The language also lets an implementation read
  the digits after the twentieth as zeros; the value of all digits is taken here.)
\<close>

definition is_digit :: "char \<Rightarrow> bool" where
  "is_digit c = (48 \<le> (of_char c :: nat) \<and> (of_char c :: nat) \<le> 57)"

definition digit_val :: "char \<Rightarrow> int" where
  "digit_val c = int (of_char c) - 48"

definition digits_val :: "string \<Rightarrow> int" where
  "digits_val ds = foldl (\<lambda>acc d. 10 * acc + digit_val d) 0 ds"

definition parseInt :: "string \<Rightarrow> number" where
  "parseInt s =
     (let s1 = dropWhile is_ws s;
          sign = (if s1 \<noteq> [] \<and> hd s1 = CHR ''-'' then -1 else 1 :: int);
          s2 = (if s1 \<noteq> [] \<and> (hd s1 = CHR ''+'' \<or> hd s1 = CHR ''-'') then tl s1 else s1);
          ds = takeWhile is_digit s2
      in if ds = [] then NaN else to_number (sign * digits_val ds))"

text \<open>\<open>n || 0\<close> on a number: \<open>NaN\<close> and zero are falsy.\<close>

definition or_zero :: "number \<Rightarrow> number" where
  "or_zero v = (case v of NaN \<Rightarrow> Num 0 | Num n \<Rightarrow> if n = 0 then Num 0 else Num n
     | PosInfinity \<Rightarrow> PosInfinity | NegInfinity \<Rightarrow> NegInfinity)"

section \<open>The result parser\<close>

record MutationPathStep =
  fromSequence :: string
  toSequence :: string
  transitionCost :: number

record MutationNetworkNode =
  id_node :: string
  sequence :: string
  index :: nat

record MutationNetworkLink =
  source :: string
  target :: string
  cost :: number

record MutationNetworkGraphData =
  steps :: "MutationPathStep list"
  nodes :: "MutationNetworkNode list"
  links :: "MutationNetworkLink list"

text \<open>The row tokenizer \<open>parseRow\<close>: one pass over the code units of the line.\<close>

fun parseRow_loop :: "char \<Rightarrow> string \<Rightarrow> bool \<Rightarrow> string \<Rightarrow> string list \<Rightarrow> string list" where
  "parseRow_loop sep [] inQuotes current result = result @ [trim current]"
| "parseRow_loop sep (c # cs) inQuotes current result =
     (if c = dquote then parseRow_loop sep cs (\<not> inQuotes) current result
      else if c = sep \<and> \<not> inQuotes then parseRow_loop sep cs inQuotes [] (result @ [trim current])
      else parseRow_loop sep cs inQuotes (current @ [c]) result)"

definition parseRow :: "char \<Rightarrow> string \<Rightarrow> string list" where
  "parseRow sep line = parseRow_loop sep line False [] []"

text \<open>Header resolution: the three column positions.\<close>

definition header_tokens :: "char \<Rightarrow> string \<Rightarrow> string list" where
  "header_tokens sep line = map (\<lambda>h. toLowerCase (trim (strip_quotes h))) (split sep line)"

definition column_index :: "string \<Rightarrow> nat \<Rightarrow> string list \<Rightarrow> nat" where
  "column_index name fallback headers =
     (if findIndex name headers \<ge> 0 then nat (findIndex name headers) else fallback)"

text \<open>The body of the loop over the data lines, and the loop.\<close>

definition row_cost :: "string list \<Rightarrow> nat \<Rightarrow> number" where
  "row_cost cols costIdx = or_zero (parseInt (nullish (at cols costIdx) ''0''))"

definition row_step :: "char \<Rightarrow> nat \<Rightarrow> nat \<Rightarrow> nat \<Rightarrow> string \<Rightarrow> MutationPathStep list \<Rightarrow> MutationPathStep list" where
  "row_step sep fromIdx toIdx costIdx line acc =
     (let cols = parseRow sep line;
          fromSeq = nullish (at cols fromIdx) [];
          toSeq = nullish (at cols toIdx) [];
          cost = row_cost cols costIdx
      in if fromSeq \<noteq> [] \<and> toSeq \<noteq> []
         then acc @ [\<lparr>fromSequence = fromSeq, toSequence = toSeq, transitionCost = cost\<rparr>]
         else acc)"

fun rows_loop :: "char \<Rightarrow> nat \<Rightarrow> nat \<Rightarrow> nat \<Rightarrow> string list \<Rightarrow> MutationPathStep list \<Rightarrow> MutationPathStep list" where
  "rows_loop sep fromIdx toIdx costIdx [] acc = acc"
| "rows_loop sep fromIdx toIdx costIdx (line # rest) acc =
     rows_loop sep fromIdx toIdx costIdx rest (row_step sep fromIdx toIdx costIdx line acc)"

text \<open>
  The graph builder (the second half of \<open>parseResultCsv\<close>). Its state is the node list,
  the link list, the set \<open>seen\<close> and the counter \<open>idx\<close>.
\<close>

record builder =
  b_nodes :: "MutationNetworkNode list"
  b_links :: "MutationNetworkLink list"
  seen :: "string set"
  idx :: nat

definition add_node :: "string \<Rightarrow> builder \<Rightarrow> builder" where
  "add_node s b =
     (if s \<notin> seen b
      then b\<lparr>b_nodes := b_nodes b @ [\<lparr>id_node = s, sequence = s, index = idx b\<rparr>],
             idx := idx b + 1, seen := insert s (seen b)\<rparr>
      else b)"

definition add_link :: "MutationPathStep \<Rightarrow> builder \<Rightarrow> builder" where
  "add_link s b =
     b\<lparr>b_links := b_links b @
         [\<lparr>source = fromSequence s, target = toSequence s, cost = transitionCost s\<rparr>]\<rparr>"

fun steps_loop :: "MutationPathStep list \<Rightarrow> builder \<Rightarrow> builder" where
  "steps_loop [] b = b"
| "steps_loop (s # ss) b = steps_loop ss (add_link s (add_node (toSequence s) b))"

definition build_graph :: "MutationPathStep list \<Rightarrow> builder" where
  "build_graph sts =
     (let b0 = \<lparr>b_nodes = [], b_links = [], seen = {}, idx = 0\<rparr>;
          b1 = (case sts of [] \<Rightarrow> b0 | first # _ \<Rightarrow> add_node (fromSequence first) b0)
      in steps_loop sts b1)"

text \<open>\<open>parseResultCsv\<close> itself.\<close>

definition nonblank_lines :: "string \<Rightarrow> string list" where
  "nonblank_lines content = filter (\<lambda>line. trim line \<noteq> []) (split newline content)"

definition separator :: "string \<Rightarrow> char" where
  "separator header = (if tab \<in> set header then tab else comma)"

definition parse_steps :: "string list \<Rightarrow> MutationPathStep list" where
  "parse_steps lines =
     (let sep = separator (hd lines);
          headers = header_tokens sep (hd lines);
          fromIdx = column_index ''from_sequence'' 0 headers;
          toIdx = column_index ''to_sequence'' 1 headers;
          costIdx = column_index ''transition_cost'' 2 headers
      in rows_loop sep fromIdx toIdx costIdx (tl lines) [])"

definition parseResultCsv :: "string \<Rightarrow> MutationNetworkGraphData" where
  "parseResultCsv content =
     (let lines = nonblank_lines content
      in if length lines < 2 then \<lparr>steps = [], nodes = [], links = []\<rparr>
         else (let sts = parse_steps lines; b = build_graph sts
               in \<lparr>steps = sts, nodes = b_nodes b, links = b_links b\<rparr>))"

section \<open>Notions for the statements about the parser\<close>

text \<open>
  The header line, the data rows and the resolved columns of a text, as
  \<open>parseResultCsv\<close> reads them: \<open>lines[0]\<close>, \<open>lines[1..]\<close>, \<open>sep\<close>,
  \<open>headers\<close>, \<open>fromIdx\<close>, \<open>toIdx\<close> and \<open>costIdx\<close>.
\<close>

definition header_line :: "string \<Rightarrow> string" where
  "header_line content = hd (nonblank_lines content)"


definition header_sep :: "string \<Rightarrow> char" where
  "header_sep content = separator (header_line content)"

definition headers_of :: "string \<Rightarrow> string list" where
  "headers_of content = header_tokens (header_sep content) (header_line content)"

definition fromIdx_of :: "string \<Rightarrow> nat" where
  "fromIdx_of content = column_index ''from_sequence'' 0 (headers_of content)"

definition toIdx_of :: "string \<Rightarrow> nat" where
  "toIdx_of content = column_index ''to_sequence'' 1 (headers_of content)"

definition costIdx_of :: "string \<Rightarrow> nat" where
  "costIdx_of content = column_index ''transition_cost'' 2 (headers_of content)"

text \<open>
  A field of a row (empty when the row has no such column), the rows that are kept, and
  the step a kept row stands for.
\<close>

definition field :: "char \<Rightarrow> nat \<Rightarrow> string \<Rightarrow> string" where
  "field sep i line = nullish (at (parseRow sep line) i) []"




text \<open>
  The sequences in the order the graph builder meets them (the first step's source,
  then every step's target), a list cut down to the first occurrence of each element, the
  link of a step, and nodes that carry their own position.
\<close>

definition discovery :: "MutationPathStep list \<Rightarrow> string list" where
  "discovery sts =
     (case sts of [] \<Rightarrow> [] | first # _ \<Rightarrow> fromSequence first # map toSequence sts)"

definition first_occurrences :: "'a list \<Rightarrow> 'a list" where
  "first_occurrences xs = rev (remdups (rev xs))"

definition link_of :: "MutationPathStep \<Rightarrow> MutationNetworkLink" where
  "link_of s = \<lparr>source = fromSequence s, target = toSequence s, cost = transitionCost s\<rparr>"

definition well_indexed :: "MutationNetworkNode list \<Rightarrow> bool" where
  "well_indexed ns =
     (\<forall>i < length ns. index (ns ! i) = i \<and> id_node (ns ! i) = sequence (ns ! i))"

definition builder_inv :: "builder \<Rightarrow> bool" where
  "builder_inv b =
     (seen b = set (map sequence (b_nodes b)) \<and> distinct (map sequence (b_nodes b))
      \<and> idx b = length (b_nodes b) \<and> well_indexed (b_nodes b))"













section \<open>The component and its run\<close>

text \<open>
  The fields of the component that \<open>canStart\<close>, \<open>onStart\<close> and \<open>onDownload\<close>
  read or write. The four signals are fields like the others.
\<close>

record component =
  uploadComplete :: bool
  savedFileName :: string
  startSequence :: string
  endSequence :: string
  maxDistance :: int
  outputFormat :: string
  isProcessing :: bool
  processedFileName :: string
  graphData :: "MutationNetworkGraphData option"
  errorMessage :: "string option"

record MutationNetworkParams =
  input_path :: string
  start_node :: string
  end_node :: string
  max_cost :: int
  output_format :: string

record response =
  status :: string
  result :: string

text \<open>
  The values an error object carries in \<open>error.error?.detail\<close> and in
  \<open>error.message\<close>: nothing, a string, or an array, whose elements stand for their
  string conversions.
\<close>

datatype js_value = Undefined | Str string | Arr "string list"

record http_error =
  detail :: js_value
  message :: js_value

datatype failure = TimeoutError | OtherError http_error

text \<open>
  The backend is outside the program. A call to it emits one value and completes, or
  errors, or delivers nothing before the time limit set on the call runs out (120 seconds
  for the submit call, 30 seconds for the download).
\<close>

datatype 'a reply = Emits 'a | Errors failure | Silent

record backend =
  run_reply :: "MutationNetworkParams \<Rightarrow> response reply"
  download_reply :: "string \<Rightarrow> string reply"

text \<open>
  What a run does, in order: the writes to the fields of the component and the calls
  to the outside. A downloaded blob is the text that \<open>readAsText\<close> delivers.
\<close>

datatype event =
    Set_isProcessing bool
  | Set_processedFileName string
  | Set_graphData "MutationNetworkGraphData option"
  | Set_errorMessage "string option"
  | Call_run MutationNetworkParams
  | Call_downloadFile string
  | Call_readAsText string
  | Call_markForCheck
  | Call_renderGraph

fun apply_event :: "event \<Rightarrow> component \<Rightarrow> component" where
  "apply_event (Set_isProcessing b) c = c\<lparr>isProcessing := b\<rparr>"
| "apply_event (Set_processedFileName f) c = c\<lparr>processedFileName := f\<rparr>"
| "apply_event (Set_graphData g) c = c\<lparr>graphData := g\<rparr>"
| "apply_event (Set_errorMessage m) c = c\<lparr>errorMessage := m\<rparr>"
| "apply_event (Call_run p) c = c"
| "apply_event (Call_downloadFile f) c = c"
| "apply_event (Call_readAsText b) c = c"
| "apply_event Call_markForCheck c = c"
| "apply_event Call_renderGraph c = c"

definition run_events :: "event list \<Rightarrow> component \<Rightarrow> component" where
  "run_events es c = foldl (\<lambda>c e. apply_event e c) c es"

definition canStart :: "component \<Rightarrow> bool" where
  "canStart c =
     (uploadComplete c \<and> trim (savedFileName c) \<noteq> [] \<and> trim (startSequence c) \<noteq> []
      \<and> trim (endSequence c) \<noteq> [] \<and> \<not> isProcessing c)"

definition run_params :: "component \<Rightarrow> MutationNetworkParams" where
  "run_params c =
     \<lparr>input_path = savedFileName c, start_node = trim (startSequence c),
      end_node = trim (endSequence c), max_cost = maxDistance c,
      output_format = outputFormat c\<rparr>"

text \<open>The operator \<open>timeout\<close>: silence becomes a \<open>TimeoutError\<close>.\<close>

definition timeout :: "'a reply \<Rightarrow> failure + 'a" where
  "timeout r = (case r of Emits v \<Rightarrow> Inr v | Errors e \<Rightarrow> Inl e | Silent \<Rightarrow> Inl TimeoutError)"

text \<open>The error handler: \<open>a || b\<close>, \<open>xs.join(' ')\<close> and the two fixed messages.\<close>

definition truthy :: "js_value \<Rightarrow> bool" where
  "truthy v = (case v of Undefined \<Rightarrow> False | Str s \<Rightarrow> s \<noteq> [] | Arr xs \<Rightarrow> True)"

definition js_or :: "js_value \<Rightarrow> js_value \<Rightarrow> js_value" where
  "js_or a b = (if truthy a then a else b)"

fun join :: "string \<Rightarrow> string list \<Rightarrow> string" where
  "join s [] = []"
| "join s [x] = x"
| "join s (x # y # ys) = x @ s @ join s (y # ys)"

definition timeout_message :: string where
  "timeout_message =
     ''Request timed out. The file may be too large or the server is busy. Try a smaller file or try again.''"

definition generic_message :: string where
  "generic_message = ''Mutation network failed''"

definition catchError :: "failure \<Rightarrow> event list" where
  "catchError error =
     (case error of
        TimeoutError \<Rightarrow> [Set_errorMessage (Some timeout_message)]
      | OtherError e \<Rightarrow>
          (let msg = js_or (js_or (detail e) (message e)) (Str generic_message)
           in [Set_errorMessage
                 (case msg of Arr xs \<Rightarrow> Some (join '' '' xs) | Str m \<Rightarrow> Some m
                  | Undefined \<Rightarrow> None)]))"

definition finalize :: "event list" where
  "finalize = [Set_isProcessing False, Call_markForCheck]"

text \<open>
  \<open>handleDownloadedResult\<close> starts the reader; its \<open>onload\<close> runs later, after the
  pipeline has completed.
\<close>

definition handleDownloadedResult :: "string \<Rightarrow> event list" where
  "handleDownloadedResult blob = [Call_readAsText blob]"

definition reader_onload :: "string \<Rightarrow> event list" where
  "reader_onload text =
     [Set_graphData (Some (parseResultCsv text)), Call_markForCheck, Call_renderGraph]"

definition tap_response :: "response \<Rightarrow> event list" where
  "tap_response r =
     (if status r = ''ok'' \<and> result r \<noteq> [] then [Set_processedFileName (result r)] else [])"

definition switchMap_response :: "backend \<Rightarrow> response \<Rightarrow> event list \<times> (failure + string option)" where
  "switchMap_response w r =
     (if status r = ''ok'' \<and> result r \<noteq> []
      then (case timeout (download_reply w (result r)) of
              Inl e \<Rightarrow> ([Call_downloadFile (result r)], Inl e)
            | Inr blob \<Rightarrow>
                (Call_downloadFile (result r) # handleDownloadedResult blob, Inr (Some blob)))
      else ([], Inr None))"

definition pipeline :: "backend \<Rightarrow> MutationNetworkParams \<Rightarrow> event list \<times> (failure + string option)" where
  "pipeline w params =
     (case timeout (run_reply w params) of
        Inl e \<Rightarrow> ([Call_run params], Inl e)
      | Inr r \<Rightarrow>
          (case switchMap_response w r of
             (es, out) \<Rightarrow> (Call_run params # tap_response r @ es, out)))"

definition onStart :: "backend \<Rightarrow> component \<Rightarrow> event list" where
  "onStart w c =
     (if \<not> canStart c then []
      else (case pipeline w (run_params c) of
              (es, out) \<Rightarrow>
                [Set_isProcessing True, Set_processedFileName [], Set_graphData None,
                 Set_errorMessage None]
                @ es
                @ (case out of Inl e \<Rightarrow> catchError e | Inr v \<Rightarrow> [])
                @ finalize
                @ (case out of Inr (Some blob) \<Rightarrow> reader_onload blob | _ \<Rightarrow> [])))"

text \<open>The gate and the request of \<open>onDownload\<close>.\<close>

definition onDownload_request :: "component \<Rightarrow> event list" where
  "onDownload_request c =
     (if processedFileName c = [] then [] else [Call_downloadFile (processedFileName c)])"

section \<open>Notions for the statements about the run\<close>

text \<open>
  The text shown for a failure that is not a timeout, as the specification words it:
  the detail when there is one, else the error's own message, else the generic message.
  An array is joined with spaces: its first element, then every further element with
  one space before it.
\<close>

definition spaced :: "string list \<Rightarrow> string" where
  "spaced xs = (case xs of [] \<Rightarrow> [] | x # ys \<Rightarrow> x @ concat (map (\<lambda>y. CHR '' '' # y) ys))"

definition own_or_generic :: "http_error \<Rightarrow> string" where
  "own_or_generic e =
     (case message e of Str m \<Rightarrow> if m = [] then generic_message else m
      | Arr xs \<Rightarrow> spaced xs | Undefined \<Rightarrow> generic_message)"

definition failure_text :: "http_error \<Rightarrow> string" where
  "failure_text e =
     (case detail e of Arr xs \<Rightarrow> spaced xs
      | Str d \<Rightarrow> if d = [] then own_or_generic e else d
      | Undefined \<Rightarrow> own_or_generic e)"

definition is_network_call :: "event \<Rightarrow> bool" where
  "is_network_call e = (case e of Call_run p \<Rightarrow> True | Call_downloadFile f \<Rightarrow> True | _ \<Rightarrow> False)"

definition sets_processedFileName :: "event \<Rightarrow> bool" where
  "sets_processedFileName e = (case e of Set_processedFileName f \<Rightarrow> True | _ \<Rightarrow> False)"

text \<open>A component that is ready to start, and some backends.\<close>

definition ready_component :: component where
  "ready_component =
     \<lparr>uploadComplete = True, savedFileName = ''in.fasta'', startSequence = ''AAAA'',
      endSequence = ''AATT'', maxDistance = 1, outputFormat = ''csv'', isProcessing = False,
      processedFileName = [], graphData = None, errorMessage = None\<rparr>"

definition silent_backend :: backend where
  "silent_backend = \<lparr>run_reply = (\<lambda>p. Silent), download_reply = (\<lambda>f. Silent)\<rparr>"

definition failing_download_backend :: backend where
  "failing_download_backend =
     \<lparr>run_reply = (\<lambda>p. Emits \<lparr>status = ''ok'', result = ''out.csv''\<rparr>),
      download_reply = (\<lambda>f. Errors (OtherError \<lparr>detail = Arr [''not'', ''found''], message = Undefined\<rparr>))\<rparr>"

definition failing_submit_backend :: backend where
  "failing_submit_backend =
     \<lparr>run_reply =
        (\<lambda>p. Errors (OtherError \<lparr>detail = Arr [''field'', ''required'', ''start_node''],
                                  message = Str ''Http failure response''\<rparr>)),
      download_reply = (\<lambda>f. Silent)\<rparr>"

definition slow_download_backend :: backend where
  "slow_download_backend =
     \<lparr>run_reply = (\<lambda>p. Emits \<lparr>status = ''ok'', result = ''out.csv''\<rparr>),
      download_reply = (\<lambda>f. Silent)\<rparr>"

definition plain_error :: http_error where
  "plain_error = \<lparr>detail = Str [], message = Str ''Http failure response''\<rparr>"

definition bare_error :: http_error where
  "bare_error = \<lparr>detail = Undefined, message = Undefined\<rparr>"

section \<open>Example inputs\<close>


definition unnamed_columns_text :: string where
  "unnamed_columns_text = ''seq_a,seq_b,weight\<newline>AAAA,AAAT,1''"

text \<open>Three steps that are not one walk: the source of the second is no target.\<close>

definition broken_path :: "MutationPathStep list" where
  "broken_path =
     [\<lparr>fromSequence = ''AAAA'', toSequence = ''AAAT'', transitionCost = Num 1\<rparr>,
      \<lparr>fromSequence = ''CCCC'', toSequence = ''GGGT'', transitionCost = Num 2\<rparr>,
      \<lparr>fromSequence = ''AAAT'', toSequence = ''AAAA'', transitionCost = Num 3\<rparr>]"


text \<open>
  A text with quoted cells, the columns in another order, and lines that end in CR LF;
  and the same text with lines that end in LF.
\<close>

definition crlf_quoted_text :: string where
  \<open>crlf_quoted_text =
     ''"To_Sequence","Transition_Cost","From_Sequence"'' @ [CHR 0x0D, CHR 0x0A]
     @ ''"AAAT","1","AAAA"'' @ [CHR 0x0D, CHR 0x0A]\<close>

definition lf_quoted_text :: string where
  \<open>lf_quoted_text =
     ''"To_Sequence","Transition_Cost","From_Sequence"'' @ [CHR 0x0A]
     @ ''"AAAT","1","AAAA"'' @ [CHR 0x0A]\<close>


section \<open>The end-to-end example\<close>

text \<open>
  C1. The two-step example text, a header line and the rows \<open>AAAA,AAAT,1\<close> and
  \<open>AAAT,AATT,2\<close>, parses to the two steps in that order, to the three nodes AAAA, AAAT
  and AATT with the indices 0, 1 and 2, and to the two links with the costs 1 and 2.
\<close>

theorem parseResultCsv_example:
  "parseResultCsv
     ''From_Sequence,To_Sequence,Transition_Cost\<newline>AAAA,AAAT,1\<newline>AAAT,AATT,2'' =
   \<lparr>steps =
      [\<lparr>fromSequence = ''AAAA'', toSequence = ''AAAT'', transitionCost = Num 1\<rparr>,
       \<lparr>fromSequence = ''AAAT'', toSequence = ''AATT'', transitionCost = Num 2\<rparr>],
    nodes =
      [\<lparr>id_node = ''AAAA'', sequence = ''AAAA'', index = 0\<rparr>,
       \<lparr>id_node = ''AAAT'', sequence = ''AAAT'', index = 1\<rparr>,
       \<lparr>id_node = ''AATT'', sequence = ''AATT'', index = 2\<rparr>],
    links =
      [\<lparr>source = ''AAAA'', target = ''AAAT'', cost = Num 1\<rparr>,
       \<lparr>source = ''AAAT'', target = ''AATT'', cost = Num 2\<rparr>]\<rparr>"
  by code_simp

section \<open>The rows that become steps\<close>




















section \<open>The row tokenizer\<close>











section \<open>The graph builder\<close>

lemma remdups_skip: "t \<in> set B \<Longrightarrow> remdups (A @ t # B) = remdups (A @ B)"
  by (induction A) auto

lemma first_occurrences_seen:
  "t \<in> set ys \<Longrightarrow> first_occurrences (ys @ t # rest) = first_occurrences (ys @ rest)"
  by (simp add: first_occurrences_def remdups_skip)

lemma first_occurrences_distinct: "distinct ys \<Longrightarrow> first_occurrences ys = ys"
  by (simp add: first_occurrences_def distinct_remdups_id)

lemma set_first_occurrences: "set (first_occurrences xs) = set xs"
  by (simp add: first_occurrences_def)

lemma distinct_first_occurrences: "distinct (first_occurrences xs)"
  by (simp add: first_occurrences_def)

lemma well_indexed_snoc:
  "well_indexed ns \<Longrightarrow> well_indexed (ns @ [\<lparr>id_node = s, sequence = s, index = length ns\<rparr>])"
  by (auto simp: well_indexed_def nth_append)

lemma add_node_new:
  "s \<notin> seen b \<Longrightarrow> b_nodes (add_node s b) = b_nodes b @ [\<lparr>id_node = s, sequence = s, index = idx b\<rparr>]
     \<and> seen (add_node s b) = insert s (seen b) \<and> idx (add_node s b) = idx b + 1
     \<and> b_links (add_node s b) = b_links b"
  by (simp add: add_node_def)

lemma add_node_old: "s \<in> seen b \<Longrightarrow> add_node s b = b"
  by (simp add: add_node_def)

lemma add_node_inv: "builder_inv b \<Longrightarrow> builder_inv (add_node s b)"
proof (cases "s \<in> seen b")
  case True
  assume "builder_inv b"
  then show ?thesis using True by (simp add: add_node_old)
next
  case False
  assume inv: "builder_inv b"
  note n = add_node_new [OF False]
  have w: "well_indexed (b_nodes b @ [\<lparr>id_node = s, sequence = s, index = idx b\<rparr>])"
    using inv well_indexed_snoc [of "b_nodes b" s] by (simp add: builder_inv_def)
  show ?thesis
    using inv False w by (simp add: builder_inv_def n)
qed

lemma add_link_nodes: "b_nodes (add_link s b) = b_nodes b \<and> seen (add_link s b) = seen b
    \<and> idx (add_link s b) = idx b \<and> b_links (add_link s b) = b_links b @ [link_of s]"
  by (simp add: add_link_def link_of_def)

lemma add_link_inv: "builder_inv b \<Longrightarrow> builder_inv (add_link s b)"
  by (simp add: builder_inv_def add_link_nodes)

lemma b_links_add_node: "b_links (add_node s b) = b_links b"
  by (simp add: add_node_def)

lemma steps_loop_links: "b_links (steps_loop sts b) = b_links b @ map link_of sts"
  by (induction sts arbitrary: b) (simp_all add: add_link_nodes b_links_add_node)

lemma steps_loop_inv: "builder_inv b \<Longrightarrow> builder_inv (steps_loop sts b)"
  by (induction sts arbitrary: b) (simp_all add: add_link_inv add_node_inv)

lemma steps_loop_seqs:
  "builder_inv b \<Longrightarrow>
     map sequence (b_nodes (steps_loop sts b)) =
       first_occurrences (map sequence (b_nodes b) @ map toSequence sts)"
proof (induction sts arbitrary: b)
  case Nil
  then show ?case by (simp add: first_occurrences_distinct builder_inv_def)
next
  case (Cons s sts)
  let ?b1 = "add_node (toSequence s) b"
  have inv1: "builder_inv (add_link s ?b1)" using Cons.prems by (simp add: add_link_inv add_node_inv)
  have "map sequence (b_nodes (steps_loop (s # sts) b)) =
        first_occurrences (map sequence (b_nodes ?b1) @ map toSequence sts)"
    using Cons.IH [OF inv1] by (simp add: add_link_nodes)
  also have "\<dots> = first_occurrences (map sequence (b_nodes b) @ map toSequence (s # sts))"
  proof (cases "toSequence s \<in> seen b")
    case True
    then have "toSequence s \<in> set (map sequence (b_nodes b))"
      using Cons.prems by (simp add: builder_inv_def)
    from first_occurrences_seen [OF this] show ?thesis by (simp add: add_node_old True)
  next
    case False
    then show ?thesis by (simp add: add_node_new [OF False])
  qed
  finally show ?case .
qed

lemma builder_inv_empty: "builder_inv \<lparr>b_nodes = [], b_links = [], seen = {}, idx = 0\<rparr>"
  by (simp add: builder_inv_def well_indexed_def)

lemma build_graph_inv: "builder_inv (build_graph sts)"
  by (cases sts) (simp_all add: build_graph_def steps_loop_inv add_node_inv add_link_inv builder_inv_empty)

lemma build_graph_links: "b_links (build_graph sts) = map link_of sts"
  by (cases sts) (simp_all add: build_graph_def steps_loop_links add_link_nodes b_links_add_node)

lemma build_graph_seqs: "map sequence (b_nodes (build_graph sts)) = first_occurrences (discovery sts)"
proof (cases sts)
  case Nil
  then show ?thesis by (simp add: build_graph_def discovery_def first_occurrences_def)
next
  case (Cons s rest)
  let ?b0 = "\<lparr>b_nodes = [], b_links = [], seen = {}, idx = 0\<rparr>"
  have n: "fromSequence s \<notin> seen ?b0" by simp
  have inv: "builder_inv (add_node (fromSequence s) ?b0)"
    by (rule add_node_inv [OF builder_inv_empty])
  have "map sequence (b_nodes (build_graph sts)) =
     first_occurrences (map sequence (b_nodes (add_node (fromSequence s) ?b0)) @ map toSequence sts)"
    using steps_loop_seqs [OF inv, of sts] Cons
    by (simp add: build_graph_def)
  then show ?thesis using Cons by (simp add: add_node_new [OF n] discovery_def)
qed

lemma parseResultCsv_graph:
  "nodes (parseResultCsv content) = b_nodes (build_graph (steps (parseResultCsv content)))
   \<and> links (parseResultCsv content) = b_links (build_graph (steps (parseResultCsv content)))"
  by (simp add: parseResultCsv_def Let_def build_graph_def)

text \<open>
  C4. For every list of steps the graph builder makes the nodes of the first step's
  source followed by every step's target, in step order, each sequence once, at its first
  occurrence; a source of a later step is a node only if it is among these. The index of
  a node is its position, counted from 0, and its id is its sequence. The links are the
  steps, one link for each step in the same order, nothing merged, so there are as many
  links as steps. \<open>parseResultCsv\<close> returns these nodes and links for its steps.
\<close>

theorem build_graph_nodes_and_links:
  "map sequence (b_nodes (build_graph sts)) = first_occurrences (discovery sts)
   \<and> distinct (map sequence (b_nodes (build_graph sts)))
   \<and> set (map sequence (b_nodes (build_graph sts))) = set (discovery sts)
   \<and> length (b_nodes (build_graph sts)) = card (set (discovery sts))
   \<and> (\<forall>i < length (b_nodes (build_graph sts)).
        index (b_nodes (build_graph sts) ! i) = i
        \<and> id_node (b_nodes (build_graph sts) ! i) = sequence (b_nodes (build_graph sts) ! i))
   \<and> b_links (build_graph sts) = map link_of sts
   \<and> length (b_links (build_graph sts)) = length sts
   \<and> nodes (parseResultCsv content) = b_nodes (build_graph (steps (parseResultCsv content)))
   \<and> links (parseResultCsv content) = b_links (build_graph (steps (parseResultCsv content)))
   \<and> length (links (parseResultCsv content)) = length (steps (parseResultCsv content))"
proof -
  have s: "map sequence (b_nodes (build_graph sts)) = first_occurrences (discovery sts)"
    by (rule build_graph_seqs)
  have d: "distinct (map sequence (b_nodes (build_graph sts)))"
    by (simp only: s distinct_first_occurrences)
  have e: "set (map sequence (b_nodes (build_graph sts))) = set (discovery sts)"
    by (simp only: s set_first_occurrences)
  have "length (map sequence (b_nodes (build_graph sts))) =
      card (set (map sequence (b_nodes (build_graph sts))))"
    using d by (simp only: distinct_card)
  then have c: "length (b_nodes (build_graph sts)) = card (set (discovery sts))"
    by (simp only: e length_map)
  have w: "\<forall>i < length (b_nodes (build_graph sts)).
        index (b_nodes (build_graph sts) ! i) = i
        \<and> id_node (b_nodes (build_graph sts) ! i) = sequence (b_nodes (build_graph sts) ! i)"
    using build_graph_inv [of sts] by (simp add: builder_inv_def well_indexed_def)
  have l: "b_links (build_graph sts) = map link_of sts" by (rule build_graph_links)
  have ll: "length (b_links (build_graph sts)) = length sts" by (simp add: l)
  have pn: "nodes (parseResultCsv content) = b_nodes (build_graph (steps (parseResultCsv content)))"
    by (simp add: parseResultCsv_graph)
  have pl: "links (parseResultCsv content) = b_links (build_graph (steps (parseResultCsv content)))"
    by (simp add: parseResultCsv_graph)
  have pll: "length (links (parseResultCsv content)) = length (steps (parseResultCsv content))"
    by (simp add: pl build_graph_links)
  show ?thesis
    by (intro conjI) (rule s d e c w l ll pn pl pll)+
qed

theorem build_graph_nodes_and_links_witness:
  "length (b_nodes (build_graph broken_path)) = 3
   \<and> map sequence (b_nodes (build_graph broken_path)) = [''AAAA'', ''AAAT'', ''GGGT'']
   \<and> index (b_nodes (build_graph broken_path) ! 2) = 2
   \<and> length (b_links (build_graph broken_path)) = 3"
proof -
  have n: "length (b_nodes (build_graph broken_path)) = 3" by code_simp
  have m: "map sequence (b_nodes (build_graph broken_path)) = [''AAAA'', ''AAAT'', ''GGGT'']"
    by code_simp
  from build_graph_nodes_and_links [of broken_path]
  have a: "\<forall>i < length (b_nodes (build_graph broken_path)).
      index (b_nodes (build_graph broken_path) ! i) = i" by blast
  have "2 < length (b_nodes (build_graph broken_path))" by (simp add: n)
  with a have i: "index (b_nodes (build_graph broken_path) ! 2) = 2" by blast
  from build_graph_nodes_and_links [of broken_path]
  have "length (b_links (build_graph broken_path)) = length broken_path" by blast
  moreover have "length broken_path = 3" by (simp add: broken_path_def)
  ultimately have l: "length (b_links (build_graph broken_path)) = 3" by (simp only:)
  from n m i l show ?thesis by (intro conjI)
qed

section \<open>Header resolution\<close>

text \<open>
  C5. The header tokens are to be the cells of the header line lower-cased, stripped of
  their quotes and trimmed, and a column whose name is among them is to resolve to the
  position of that name. The code takes a quote off the very end of a cell before it
  trims the cell, so a quoted cell that is followed by white space keeps its closing
  quote and its name is not recognised. In a text whose lines end in CR LF the last cell
  of the header line is such a cell. With the quoted header \<open>To_Sequence\<close>,
  \<open>Transition_Cost\<close>, \<open>From_Sequence\<close> and the row \<open>AAAT\<close>, \<open>1\<close>,
  \<open>AAAA\<close>, the source column falls back to position 0 and the step returned goes from
  AAAT to AAAT; the row tokenizer reads the same header line into the three clean names,
  and the same text with lines that end in LF resolves the source to position 2 and
  gives the step from AAAA to AAAT.
\<close>

theorem header_resolution_keeps_quote_before_cr:
  "headers_of crlf_quoted_text =
     [''to_sequence'', ''transition_cost'', ''from_sequence'' @ [dquote]]
   \<and> fromIdx_of crlf_quoted_text = 0
   \<and> toIdx_of crlf_quoted_text = 0
   \<and> costIdx_of crlf_quoted_text = 1
   \<and> steps (parseResultCsv crlf_quoted_text) =
       [\<lparr>fromSequence = ''AAAT'', toSequence = ''AAAT'', transitionCost = Num 1\<rparr>]
   \<and> map toLowerCase (parseRow (header_sep crlf_quoted_text) (header_line crlf_quoted_text)) =
       [''to_sequence'', ''transition_cost'', ''from_sequence'']
   \<and> headers_of lf_quoted_text = [''to_sequence'', ''transition_cost'', ''from_sequence'']
   \<and> fromIdx_of lf_quoted_text = 2
   \<and> toIdx_of lf_quoted_text = 0
   \<and> costIdx_of lf_quoted_text = 1
   \<and> steps (parseResultCsv lf_quoted_text) =
       [\<lparr>fromSequence = ''AAAA'', toSequence = ''AAAT'', transitionCost = Num 1\<rparr>]"
proof -
  have h: "headers_of crlf_quoted_text =
     [''to_sequence'', ''transition_cost'', ''from_sequence'' @ [dquote]]" by code_simp
  have f: "fromIdx_of crlf_quoted_text = 0" by code_simp
  have t: "toIdx_of crlf_quoted_text = 0" by code_simp
  have c: "costIdx_of crlf_quoted_text = 1" by code_simp
  have s: "steps (parseResultCsv crlf_quoted_text) =
       [\<lparr>fromSequence = ''AAAT'', toSequence = ''AAAT'', transitionCost = Num 1\<rparr>]"
    by code_simp
  have p: "map toLowerCase (parseRow (header_sep crlf_quoted_text) (header_line crlf_quoted_text)) =
       [''to_sequence'', ''transition_cost'', ''from_sequence'']" by code_simp
  have h': "headers_of lf_quoted_text = [''to_sequence'', ''transition_cost'', ''from_sequence'']"
    by code_simp
  have f': "fromIdx_of lf_quoted_text = 2" by code_simp
  have t': "toIdx_of lf_quoted_text = 0" by code_simp
  have c': "costIdx_of lf_quoted_text = 1" by code_simp
  have s': "steps (parseResultCsv lf_quoted_text) =
       [\<lparr>fromSequence = ''AAAA'', toSequence = ''AAAT'', transitionCost = Num 1\<rparr>]"
    by code_simp
  show ?thesis
    by (intro conjI) (rule h f t c s p h' f' t' c' s')+
qed

section \<open>The cost of a row\<close>

















lemma or_zero_not_NaN: "or_zero v \<noteq> NaN"
  by (cases v) (simp_all add: or_zero_def)

lemma row_cost_not_NaN: "row_cost cols costIdx \<noteq> NaN"
  by (simp add: row_cost_def or_zero_not_NaN)














section \<open>The run of onStart\<close>

lemma run_events_Nil: "run_events [] c = c"
  by (simp add: run_events_def)

lemma run_events_Cons: "run_events (e # es) c = run_events es (apply_event e c)"
  by (simp add: run_events_def)

lemma run_events_append: "run_events (es @ fs) c = run_events fs (run_events es c)"
  by (simp add: run_events_def)

lemma join_spaced: "join '' '' xs = spaced xs"
  by (induction "'' ''" xs rule: join.induct) (simp_all add: spaced_def)

lemma handler_text: "catchError (OtherError e) = [Set_errorMessage (Some (failure_text e))]"
  by (cases "detail e"; cases "message e")
     (simp_all add: catchError_def failure_text_def own_or_generic_def js_or_def truthy_def
        generic_message_def join_spaced)

lemma handler_timeout: "catchError TimeoutError = [Set_errorMessage (Some timeout_message)]"
  by (simp add: catchError_def)

lemma messages_differ: "timeout_message \<noteq> generic_message"
  by (simp add: timeout_message_def generic_message_def)

lemma onStart_submit_fails:
  assumes "canStart c" and "timeout (run_reply w (run_params c)) = Inl f"
  shows "onStart w c =
     [Set_isProcessing True, Set_processedFileName [], Set_graphData None, Set_errorMessage None,
      Call_run (run_params c)] @ catchError f @ finalize"
  using assms by (simp add: onStart_def pipeline_def)

lemma onStart_not_ok:
  assumes "canStart c" and "timeout (run_reply w (run_params c)) = Inr r"
    and "\<not> (status r = ''ok'' \<and> result r \<noteq> [])"
  shows "onStart w c =
     [Set_isProcessing True, Set_processedFileName [], Set_graphData None, Set_errorMessage None,
      Call_run (run_params c)] @ finalize"
proof -
  have t: "tap_response r = []"
    unfolding tap_response_def using assms(3) by (rule if_not_P)
  have s: "switchMap_response w r = ([], Inr None)"
    unfolding switchMap_response_def using assms(3) by (rule if_not_P)
  show ?thesis using assms(1,2) by (simp add: onStart_def pipeline_def t s)
qed

lemma onStart_download_fails:
  assumes "canStart c" and "timeout (run_reply w (run_params c)) = Inr r"
    and "status r = ''ok''" and "result r \<noteq> []"
    and "timeout (download_reply w (result r)) = Inl f"
  shows "onStart w c =
     [Set_isProcessing True, Set_processedFileName [], Set_graphData None, Set_errorMessage None,
      Call_run (run_params c), Set_processedFileName (result r), Call_downloadFile (result r)]
     @ catchError f @ finalize"
  using assms by (simp add: onStart_def pipeline_def switchMap_response_def tap_response_def)

lemma onStart_downloaded:
  assumes "canStart c" and "timeout (run_reply w (run_params c)) = Inr r"
    and "status r = ''ok''" and "result r \<noteq> []"
    and "timeout (download_reply w (result r)) = Inr blob"
  shows "onStart w c =
     [Set_isProcessing True, Set_processedFileName [], Set_graphData None, Set_errorMessage None,
      Call_run (run_params c), Set_processedFileName (result r), Call_downloadFile (result r),
      Call_readAsText blob] @ finalize @ reader_onload blob"
  using assms
  by (simp add: onStart_def pipeline_def switchMap_response_def tap_response_def
      handleDownloadedResult_def)

lemma catchError_shape: "\<exists>m. catchError f = [Set_errorMessage m]"
  by (cases f) (simp_all add: catchError_def Let_def)

lemma errorMessage_after_failure:
  "errorMessage (run_events (pre @ catchError f @ finalize) c) =
     (case f of TimeoutError \<Rightarrow> Some timeout_message | OtherError e \<Rightarrow> Some (failure_text e))"
  by (cases f)
     (simp_all add: run_events_append handler_text handler_timeout finalize_def
        run_events_Cons run_events_Nil)

text \<open>
  C7. In a run that has started, silence of the submit call up to its time limit, or of
  the download call up to its own, sets the request-timed-out message, and so does a
  \<open>TimeoutError\<close> raised by either call. Any other error of either call sets the
  detail of the error when it has one (a non-empty string, or an array, which is joined
  into one string, one space between two elements), else the error's own message when it
  has one, else the generic message.
  The two fixed messages differ, so a submit call that runs out of time never gives the
  generic message.
\<close>

theorem onStart_failure_messages:
  assumes "canStart c"
  shows
    "(run_reply w (run_params c) = Silent \<or> run_reply w (run_params c) = Errors TimeoutError
        \<longrightarrow> errorMessage (run_events (onStart w c) c) = Some timeout_message)
     \<and> (run_reply w (run_params c) = Errors (OtherError e)
        \<longrightarrow> errorMessage (run_events (onStart w c) c) = Some (failure_text e))
     \<and> (run_reply w (run_params c) = Emits r \<and> status r = ''ok'' \<and> result r \<noteq> []
        \<and> (download_reply w (result r) = Silent
            \<or> download_reply w (result r) = Errors TimeoutError)
        \<longrightarrow> errorMessage (run_events (onStart w c) c) = Some timeout_message)
     \<and> (run_reply w (run_params c) = Emits r \<and> status r = ''ok'' \<and> result r \<noteq> []
        \<and> download_reply w (result r) = Errors (OtherError e)
        \<longrightarrow> errorMessage (run_events (onStart w c) c) = Some (failure_text e))
     \<and> timeout_message \<noteq> generic_message"
proof -
  have s1: "run_reply w (run_params c) = Silent \<or> run_reply w (run_params c) = Errors TimeoutError
        \<longrightarrow> errorMessage (run_events (onStart w c) c) = Some timeout_message"
  proof
    assume "run_reply w (run_params c) = Silent \<or> run_reply w (run_params c) = Errors TimeoutError"
    then have "timeout (run_reply w (run_params c)) = Inl TimeoutError"
      by (auto simp: timeout_def)
    from onStart_submit_fails [OF assms this]
    show "errorMessage (run_events (onStart w c) c) = Some timeout_message"
      by (simp only: errorMessage_after_failure failure.case)
  qed
  have s2: "run_reply w (run_params c) = Errors (OtherError e)
        \<longrightarrow> errorMessage (run_events (onStart w c) c) = Some (failure_text e)"
  proof
    assume "run_reply w (run_params c) = Errors (OtherError e)"
    then have "timeout (run_reply w (run_params c)) = Inl (OtherError e)"
      by (simp add: timeout_def)
    from onStart_submit_fails [OF assms this]
    show "errorMessage (run_events (onStart w c) c) = Some (failure_text e)"
      by (simp only: errorMessage_after_failure failure.case)
  qed
  have d1: "run_reply w (run_params c) = Emits r \<and> status r = ''ok'' \<and> result r \<noteq> []
        \<and> (download_reply w (result r) = Silent
            \<or> download_reply w (result r) = Errors TimeoutError)
        \<longrightarrow> errorMessage (run_events (onStart w c) c) = Some timeout_message"
  proof
    assume h: "run_reply w (run_params c) = Emits r \<and> status r = ''ok'' \<and> result r \<noteq> []
        \<and> (download_reply w (result r) = Silent
            \<or> download_reply w (result r) = Errors TimeoutError)"
    then have a: "timeout (run_reply w (run_params c)) = Inr r" by (simp add: timeout_def)
    from h have b: "timeout (download_reply w (result r)) = Inl TimeoutError"
      by (auto simp: timeout_def)
    from h have ok: "status r = ''ok''" and ne: "result r \<noteq> []" by blast+
    from onStart_download_fails [OF assms a ok ne b]
    show "errorMessage (run_events (onStart w c) c) = Some timeout_message"
      by (simp only: errorMessage_after_failure failure.case)
  qed
  have d2: "run_reply w (run_params c) = Emits r \<and> status r = ''ok'' \<and> result r \<noteq> []
        \<and> download_reply w (result r) = Errors (OtherError e)
        \<longrightarrow> errorMessage (run_events (onStart w c) c) = Some (failure_text e)"
  proof
    assume h: "run_reply w (run_params c) = Emits r \<and> status r = ''ok'' \<and> result r \<noteq> []
        \<and> download_reply w (result r) = Errors (OtherError e)"
    then have a: "timeout (run_reply w (run_params c)) = Inr r" by (simp add: timeout_def)
    from h have b: "timeout (download_reply w (result r)) = Inl (OtherError e)"
      by (simp add: timeout_def)
    from h have ok: "status r = ''ok''" and ne: "result r \<noteq> []" by blast+
    from onStart_download_fails [OF assms a ok ne b]
    show "errorMessage (run_events (onStart w c) c) = Some (failure_text e)"
      by (simp only: errorMessage_after_failure failure.case)
  qed
  show ?thesis
    by (intro conjI) (rule s1 s2 d1 d2 messages_differ)+
qed

theorem onStart_failure_messages_witness:
  "canStart ready_component
   \<and> run_reply silent_backend (run_params ready_component) = Silent
   \<and> errorMessage (run_events (onStart silent_backend ready_component) ready_component) =
       Some timeout_message
   \<and> errorMessage (run_events (onStart slow_download_backend ready_component) ready_component) =
       Some timeout_message
   \<and> errorMessage (run_events (onStart failing_submit_backend ready_component) ready_component) =
       Some ''field required start_node''
   \<and> errorMessage (run_events (onStart failing_download_backend ready_component) ready_component) =
       Some ''not found''
   \<and> failure_text plain_error = ''Http failure response''
   \<and> failure_text bare_error = ''Mutation network failed''"
proof -
  have g: "canStart ready_component" by code_simp
  have s: "run_reply silent_backend (run_params ready_component) = Silent"
    by (simp add: silent_backend_def)
  from onStart_failure_messages [OF g, of silent_backend] s
  have m1: "errorMessage (run_events (onStart silent_backend ready_component) ready_component) =
       Some timeout_message" by blast
  have sd: "run_reply slow_download_backend (run_params ready_component) =
        Emits \<lparr>status = ''ok'', result = ''out.csv''\<rparr>
      \<and> status \<lparr>status = ''ok'', result = ''out.csv''\<rparr> = ''ok''
      \<and> result \<lparr>status = ''ok'', result = ''out.csv''\<rparr> \<noteq> []
      \<and> (download_reply slow_download_backend (result \<lparr>status = ''ok'', result = ''out.csv''\<rparr>)
            = Silent
          \<or> download_reply slow_download_backend (result \<lparr>status = ''ok'', result = ''out.csv''\<rparr>)
            = Errors TimeoutError)"
    by (simp add: slow_download_backend_def)
  from onStart_failure_messages
    [OF g, of slow_download_backend _ "\<lparr>status = ''ok'', result = ''out.csv''\<rparr>"] sd
  have m2: "errorMessage (run_events (onStart slow_download_backend ready_component) ready_component) =
       Some timeout_message" by blast
  have fs: "run_reply failing_submit_backend (run_params ready_component) =
      Errors (OtherError \<lparr>detail = Arr [''field'', ''required'', ''start_node''],
                          message = Str ''Http failure response''\<rparr>)"
    by (simp add: failing_submit_backend_def)
  from onStart_failure_messages
    [OF g, of failing_submit_backend
       "\<lparr>detail = Arr [''field'', ''required'', ''start_node''],
         message = Str ''Http failure response''\<rparr>"] fs
  have "errorMessage (run_events (onStart failing_submit_backend ready_component) ready_component) =
       Some (failure_text \<lparr>detail = Arr [''field'', ''required'', ''start_node''],
                           message = Str ''Http failure response''\<rparr>)" by blast
  moreover have "failure_text \<lparr>detail = Arr [''field'', ''required'', ''start_node''],
      message = Str ''Http failure response''\<rparr> = ''field required start_node''"
    by code_simp
  ultimately have m3: "errorMessage
      (run_events (onStart failing_submit_backend ready_component) ready_component) =
       Some ''field required start_node''" by (simp only:)
  have fd: "run_reply failing_download_backend (run_params ready_component) =
        Emits \<lparr>status = ''ok'', result = ''out.csv''\<rparr>
      \<and> status \<lparr>status = ''ok'', result = ''out.csv''\<rparr> = ''ok''
      \<and> result \<lparr>status = ''ok'', result = ''out.csv''\<rparr> \<noteq> []
      \<and> download_reply failing_download_backend (result \<lparr>status = ''ok'', result = ''out.csv''\<rparr>)
          = Errors (OtherError \<lparr>detail = Arr [''not'', ''found''], message = Undefined\<rparr>)"
    by (simp add: failing_download_backend_def)
  from onStart_failure_messages
    [OF g, of failing_download_backend
       "\<lparr>detail = Arr [''not'', ''found''], message = Undefined\<rparr>"
       "\<lparr>status = ''ok'', result = ''out.csv''\<rparr>"] fd
  have "errorMessage (run_events (onStart failing_download_backend ready_component) ready_component) =
       Some (failure_text \<lparr>detail = Arr [''not'', ''found''], message = Undefined\<rparr>)" by blast
  moreover have "failure_text \<lparr>detail = Arr [''not'', ''found''], message = Undefined\<rparr> =
      ''not found''" by code_simp
  ultimately have m4: "errorMessage
      (run_events (onStart failing_download_backend ready_component) ready_component) =
       Some ''not found''" by (simp only:)
  have t1: "failure_text plain_error = ''Http failure response''" by code_simp
  have t2: "failure_text bare_error = ''Mutation network failed''" by code_simp
  from g s m1 m2 m3 m4 t1 t2 show ?thesis by (intro conjI)
qed

text \<open>
  C8. When a condition of the gate is not met (no completed upload, a blank saved file
  name, a blank start sequence, a blank end sequence, or a run in progress), \<open>onStart\<close>
  does nothing: it makes no network call, it writes no error message, and it leaves the
  component as it was.
\<close>

theorem onStart_blocked_by_gate:
  assumes "\<not> uploadComplete c \<or> trim (savedFileName c) = [] \<or> trim (startSequence c) = []
     \<or> trim (endSequence c) = [] \<or> isProcessing c"
  shows "onStart w c = []
     \<and> \<not> list_ex is_network_call (onStart w c)
     \<and> errorMessage (run_events (onStart w c) c) = errorMessage c
     \<and> run_events (onStart w c) c = c"
proof -
  from assms have "\<not> canStart c" by (auto simp: canStart_def)
  then have "onStart w c = []" by (simp add: onStart_def)
  then show ?thesis by (simp add: run_events_Nil)
qed

theorem onStart_blocked_by_gate_witness:
  "trim (startSequence (ready_component\<lparr>startSequence := ''  ''\<rparr>)) = []
   \<and> onStart silent_backend (ready_component\<lparr>startSequence := ''  ''\<rparr>) = []"
proof -
  have t: "trim (startSequence (ready_component\<lparr>startSequence := ''  ''\<rparr>)) = []"
    by code_simp
  then have "\<not> uploadComplete (ready_component\<lparr>startSequence := ''  ''\<rparr>)
     \<or> trim (savedFileName (ready_component\<lparr>startSequence := ''  ''\<rparr>)) = []
     \<or> trim (startSequence (ready_component\<lparr>startSequence := ''  ''\<rparr>)) = []
     \<or> trim (endSequence (ready_component\<lparr>startSequence := ''  ''\<rparr>)) = []
     \<or> isProcessing (ready_component\<lparr>startSequence := ''  ''\<rparr>)" by blast
  from onStart_blocked_by_gate [OF this, of silent_backend]
  have "onStart silent_backend (ready_component\<lparr>startSequence := ''  ''\<rparr>) = []" by blast
  with t show ?thesis by (intro conjI)
qed

text \<open>
  C9. Every run that starts sets the processing flag and, whatever the backend does
  (a result that is downloaded, a reply that is not ok, an error or a timeout at either
  call), ends with the flag cleared.
\<close>

theorem onStart_clears_isProcessing:
  assumes "canStart c"
  shows "(\<exists>rest. onStart w c = Set_isProcessing True # rest)
     \<and> isProcessing (run_events (onStart w c) c) = False"
proof (cases "timeout (run_reply w (run_params c))")
  case (Inl f)
  obtain m where m: "catchError f = [Set_errorMessage m]" using catchError_shape by blast
  show ?thesis
    by (simp add: onStart_submit_fails [OF assms Inl] m finalize_def run_events_Cons run_events_Nil)
next
  case (Inr r)
  show ?thesis
  proof (cases "status r = ''ok'' \<and> result r \<noteq> []")
    case False
    show ?thesis
      by (simp add: onStart_not_ok [OF assms Inr False] finalize_def run_events_Cons run_events_Nil)
  next
    case True
    then have ok: "status r = ''ok''" and ne: "result r \<noteq> []" by blast+
    show ?thesis
    proof (cases "timeout (download_reply w (result r))")
      case (Inl f)
      obtain m where m: "catchError f = [Set_errorMessage m]" using catchError_shape by blast
      show ?thesis
        by (simp add: onStart_download_fails [OF assms Inr ok ne Inl] m finalize_def
            run_events_Cons run_events_Nil)
    next
      case (Inr blob)
      show ?thesis
        by (simp add: onStart_downloaded [OF assms \<open>timeout (run_reply w (run_params c)) = Inr r\<close> ok ne Inr]
            finalize_def reader_onload_def run_events_Cons run_events_Nil)
    qed
  qed
qed

theorem onStart_clears_isProcessing_witness:
  "canStart ready_component
   \<and> isProcessing (run_events (onStart failing_download_backend ready_component) ready_component)
       = False"
proof -
  have g: "canStart ready_component" by code_simp
  from onStart_clears_isProcessing [OF g, of failing_download_backend]
  have "isProcessing (run_events (onStart failing_download_backend ready_component) ready_component)
       = False" by blast
  with g show ?thesis by (intro conjI)
qed

text \<open>
  C10. In a run that has started, when the submit call replies with status ok and a
  non-empty result file name, the run writes that name to \<open>processedFileName\<close> and then
  issues the download, and nothing after that writes \<open>processedFileName\<close> again. So at
  the end of the run the name is still there, whether the download delivers, errors or
  times out, and \<open>onDownload\<close> asks for that file.
\<close>

theorem onStart_keeps_processedFileName:
  assumes "canStart c" and "run_reply w (run_params c) = Emits r"
    and "status r = ''ok''" and "result r \<noteq> []"
  shows "(\<exists>rest. onStart w c =
            [Set_isProcessing True, Set_processedFileName [], Set_graphData None,
             Set_errorMessage None, Call_run (run_params c),
             Set_processedFileName (result r), Call_downloadFile (result r)] @ rest
          \<and> \<not> list_ex sets_processedFileName rest)
     \<and> processedFileName (run_events (onStart w c) c) = result r
     \<and> onDownload_request (run_events (onStart w c) c) = [Call_downloadFile (result r)]"
proof -
  from assms(2) have a: "timeout (run_reply w (run_params c)) = Inr r" by (simp add: timeout_def)
  have "\<exists>rest. onStart w c =
            [Set_isProcessing True, Set_processedFileName [], Set_graphData None,
             Set_errorMessage None, Call_run (run_params c),
             Set_processedFileName (result r), Call_downloadFile (result r)] @ rest
          \<and> \<not> list_ex sets_processedFileName rest
          \<and> processedFileName (run_events (onStart w c) c) = result r"
  proof (cases "timeout (download_reply w (result r))")
    case (Inl f)
    obtain m where m: "catchError f = [Set_errorMessage m]" using catchError_shape by blast
    have "onStart w c =
            [Set_isProcessing True, Set_processedFileName [], Set_graphData None,
             Set_errorMessage None, Call_run (run_params c),
             Set_processedFileName (result r), Call_downloadFile (result r)]
            @ (Set_errorMessage m # finalize)"
      by (simp add: onStart_download_fails [OF assms(1) a assms(3,4) Inl] m)
    moreover have "\<not> list_ex sets_processedFileName (Set_errorMessage m # finalize)"
      by (simp add: finalize_def sets_processedFileName_def)
    moreover have "processedFileName (run_events (onStart w c) c) = result r"
      by (simp add: onStart_download_fails [OF assms(1) a assms(3,4) Inl] m finalize_def
          run_events_Cons run_events_Nil)
    ultimately show ?thesis by blast
  next
    case (Inr blob)
    have "onStart w c =
            [Set_isProcessing True, Set_processedFileName [], Set_graphData None,
             Set_errorMessage None, Call_run (run_params c),
             Set_processedFileName (result r), Call_downloadFile (result r)]
            @ (Call_readAsText blob # finalize @ reader_onload blob)"
      by (simp add: onStart_downloaded [OF assms(1) a assms(3,4) Inr])
    moreover have "\<not> list_ex sets_processedFileName (Call_readAsText blob # finalize @ reader_onload blob)"
      by (simp add: finalize_def reader_onload_def sets_processedFileName_def)
    moreover have "processedFileName (run_events (onStart w c) c) = result r"
      by (simp add: onStart_downloaded [OF assms(1) a assms(3,4) Inr] finalize_def
          reader_onload_def run_events_Cons run_events_Nil)
    ultimately show ?thesis by blast
  qed
  then obtain rest where r: "onStart w c =
            [Set_isProcessing True, Set_processedFileName [], Set_graphData None,
             Set_errorMessage None, Call_run (run_params c),
             Set_processedFileName (result r), Call_downloadFile (result r)] @ rest"
      "\<not> list_ex sets_processedFileName rest"
      "processedFileName (run_events (onStart w c) c) = result r" by blast
  have d: "onDownload_request (run_events (onStart w c) c) = [Call_downloadFile (result r)]"
    using assms(4) by (simp add: onDownload_request_def r(3))
  from r d show ?thesis by blast
qed

theorem onStart_keeps_processedFileName_witness:
  "canStart ready_component
   \<and> run_reply failing_download_backend (run_params ready_component) =
       Emits \<lparr>status = ''ok'', result = ''out.csv''\<rparr>
   \<and> processedFileName
       (run_events (onStart failing_download_backend ready_component) ready_component) = ''out.csv''
   \<and> errorMessage
       (run_events (onStart failing_download_backend ready_component) ready_component) =
       Some ''not found''"
proof -
  have g: "canStart ready_component" by code_simp
  have s: "run_reply failing_download_backend (run_params ready_component) =
       Emits \<lparr>status = ''ok'', result = ''out.csv''\<rparr>"
    by (simp add: failing_download_backend_def)
  have ok: "status \<lparr>status = ''ok'', result = ''out.csv''\<rparr> = ''ok''" by simp
  have ne: "result \<lparr>status = ''ok'', result = ''out.csv''\<rparr> \<noteq> []" by simp
  from onStart_keeps_processedFileName [OF g s ok ne]
  have "processedFileName
       (run_events (onStart failing_download_backend ready_component) ready_component) =
       result \<lparr>status = ''ok'', result = ''out.csv''\<rparr>" by blast
  then have p: "processedFileName
       (run_events (onStart failing_download_backend ready_component) ready_component) = ''out.csv''"
    by simp
  have e: "errorMessage
       (run_events (onStart failing_download_backend ready_component) ready_component) =
       Some ''not found''" by code_simp
  from g s p e show ?thesis by (intro conjI)
qed

end
